theory Spec2Isabelle
  imports Complex_Main "HOL-Library.Char_ord" "HOL-Library.List_Lexorder"
begin

section \<open>JavaScript values\<close>

text \<open>
  The server in \<^verbatim>\<open>src/backend/index.js\<close> keeps two objects at module scope: \<^verbatim>\<open>banks\<close>
  (BIC to charge) and \<^verbatim>\<open>graph\<close> (BIC to array of outgoing links). The two searches keep
  two more objects each, \<^verbatim>\<open>distances\<close> and \<^verbatim>\<open>predecessors\<close>, and a priority queue.

  All four objects are created by \<^verbatim>\<open>{}\<close>, so they inherit the properties of
  \<^verbatim>\<open>Object.prototype\<close>. An object is modelled as the map of its own properties, and a
  read that finds no own property under one of the inherited names finds the inherited
  value: a function, or for \<^verbatim>\<open>__proto__\<close> the object \<^verbatim>\<open>Object.prototype\<close> itself.

  A JavaScript number is taken as an exact real: rounding of doubles is not modelled.
\<close>

definition inherited_names :: "string list" where
  "inherited_names =
     [''constructor'', ''__defineGetter__'', ''__defineSetter__'', ''hasOwnProperty'',
      ''__lookupGetter__'', ''__lookupSetter__'', ''isPrototypeOf'', ''propertyIsEnumerable'',
      ''toString'', ''valueOf'', ''__proto__'', ''toLocaleString'']"

definition inherited :: "string \<Rightarrow> bool" where
  "inherited k = (k \<in> set inherited_names)"

text \<open>
  What an inherited value is as a string: the source text of a built-in function, or
  \<^verbatim>\<open>[object Object]\<close> for \<^verbatim>\<open>Object.prototype\<close>. The function under \<^verbatim>\<open>constructor\<close> is
  \<^verbatim>\<open>Object\<close>.
\<close>

definition inherited_text :: "string \<Rightarrow> string" where
  "inherited_text k =
     (if k = ''__proto__'' then ''[object Object]''
      else ''function '' @ (if k = ''constructor'' then ''Object'' else k)
             @ ''() { [native code] }'')"

text \<open>
  The values that occur as a distance or a weight: \<^verbatim>\<open>undefined\<close>, a number, a string made
  by \<^verbatim>\<open>+\<close>, or the value inherited under a name.
\<close>

datatype jsnum =
  Undefined | NaN | Infinity | MinusInfinity | Num real | Text string | Inherited string

text \<open>
  The values that occur as a node: \<^verbatim>\<open>undefined\<close> (a field that the request body lacks, a
  predecessor that is not recorded), a BIC string, or the value inherited under a name.
  Used as a property name, a value is converted to a string.
\<close>

datatype jsval = JUndefined | JString string | JInherited string

fun to_key :: "jsval \<Rightarrow> string" where
  "to_key JUndefined = ''undefined''"
| "to_key (JString s) = s"
| "to_key (JInherited k) = inherited_text k"

text \<open>
  The digits of a number, as \<^verbatim>\<open>Number.prototype.toString\<close> writes them. They are a matter
  of the language, not of this program, and are left unspecified: nothing below depends
  on them.
\<close>

definition number_text :: "real \<Rightarrow> string" where
  "number_text r = undefined r"

text \<open>A value as a string (\<^verbatim>\<open>ToString\<close>).\<close>

fun to_text :: "jsnum \<Rightarrow> string" where
  "to_text Undefined = ''undefined''"
| "to_text NaN = ''NaN''"
| "to_text Infinity = ''Infinity''"
| "to_text MinusInfinity = ''-Infinity''"
| "to_text (Num r) = number_text r"
| "to_text (Text s) = s"
| "to_text (Inherited k) = inherited_text k"

text \<open>The values that \<^verbatim>\<open>ToPrimitive\<close> turns into a string: strings, functions and objects.\<close>

fun stringy :: "jsnum \<Rightarrow> bool" where
  "stringy (Text s) = True"
| "stringy (Inherited k) = True"
| "stringy _ = False"

text \<open>
  A value as a number (\<^verbatim>\<open>ToNumber\<close>). \<^verbatim>\<open>undefined\<close> gives \<^verbatim>\<open>NaN\<close>; so does every string
  that occurs here, since each holds the text of an inherited value and is no numeral.
\<close>

fun to_number :: "jsnum \<Rightarrow> jsnum" where
  "to_number Undefined = NaN"
| "to_number (Text s) = NaN"
| "to_number (Inherited k) = NaN"
| "to_number x = x"

text \<open>Addition of two numbers.\<close>

fun num_add :: "jsnum \<Rightarrow> jsnum \<Rightarrow> jsnum" where
  "num_add (Num a) (Num b) = Num (a + b)"
| "num_add (Num a) Infinity = Infinity"
| "num_add Infinity (Num b) = Infinity"
| "num_add Infinity Infinity = Infinity"
| "num_add (Num a) MinusInfinity = MinusInfinity"
| "num_add MinusInfinity (Num b) = MinusInfinity"
| "num_add MinusInfinity MinusInfinity = MinusInfinity"
| "num_add _ _ = NaN"

text \<open>
  \<^verbatim>\<open>a + b\<close>: when one side is a string, a function or an object, the two sides are
  written out and joined; otherwise they are added as numbers.
\<close>

definition js_add :: "jsnum \<Rightarrow> jsnum \<Rightarrow> jsnum" where
  "js_add a b =
     (if stringy a \<or> stringy b then Text (to_text a @ to_text b)
      else num_add (to_number a) (to_number b))"

text \<open>\<^verbatim>\<open>-a\<close> of a number, and \<^verbatim>\<open>a - b\<close> as the queue's comparator computes it.\<close>

fun num_neg :: "jsnum \<Rightarrow> jsnum" where
  "num_neg (Num a) = Num (- a)"
| "num_neg Infinity = MinusInfinity"
| "num_neg MinusInfinity = Infinity"
| "num_neg _ = NaN"

definition js_sub :: "jsnum \<Rightarrow> jsnum \<Rightarrow> jsnum" where
  "js_sub a b = num_add (to_number a) (num_neg (to_number b))"

text \<open>Comparison of two numbers: false as soon as one side is \<^verbatim>\<open>NaN\<close>.\<close>

fun num_lt :: "jsnum \<Rightarrow> jsnum \<Rightarrow> bool" where
  "num_lt (Num a) (Num b) = (a < b)"
| "num_lt (Num a) Infinity = True"
| "num_lt MinusInfinity (Num b) = True"
| "num_lt MinusInfinity Infinity = True"
| "num_lt _ _ = False"

text \<open>
  \<^verbatim>\<open>a < b\<close>: two strings (or functions, or objects, written out) are compared character by
  character; otherwise both sides are compared as numbers.
\<close>

definition js_lt :: "jsnum \<Rightarrow> jsnum \<Rightarrow> bool" where
  "js_lt a b =
     (if stringy a \<and> stringy b then to_text a < to_text b
      else num_lt (to_number a) (to_number b))"

text \<open>\<^verbatim>\<open>a > b\<close>.\<close>

definition js_gt :: "jsnum \<Rightarrow> jsnum \<Rightarrow> bool" where
  "js_gt a b = js_lt b a"

text \<open>
  Truthiness: \<^verbatim>\<open>undefined\<close>, \<^verbatim>\<open>NaN\<close>, \<^verbatim>\<open>0\<close> and the empty string are falsy; functions
  and objects are truthy.
\<close>

fun truthy :: "jsnum \<Rightarrow> bool" where
  "truthy Undefined = False"
| "truthy NaN = False"
| "truthy Infinity = True"
| "truthy MinusInfinity = True"
| "truthy (Num x) = (x \<noteq> 0)"
| "truthy (Text s) = (s \<noteq> [])"
| "truthy (Inherited k) = True"

text \<open>\<^verbatim>\<open>a || b\<close>.\<close>

definition js_or :: "jsnum \<Rightarrow> jsnum \<Rightarrow> jsnum" where
  "js_or a b = (if truthy a then a else b)"

section \<open>Reading and writing properties\<close>

text \<open>
  \<^verbatim>\<open>obj[key] = value\<close>. Under the name \<^verbatim>\<open>__proto__\<close> the assignment reaches the setter of
  \<^verbatim>\<open>Object.prototype\<close>, which stores nothing: every value that this program assigns is a
  number, a string or \<^verbatim>\<open>undefined\<close>, or is \<^verbatim>\<open>Object.prototype\<close> itself, which the object
  already has as its prototype. So no object ever has an own property of that name.
\<close>

definition put :: "(string \<rightharpoonup> 'v) \<Rightarrow> string \<Rightarrow> 'v \<Rightarrow> (string \<rightharpoonup> 'v)" where
  "put obj k v = (if k = ''__proto__'' then obj else obj(k \<mapsto> v))"

text \<open>\<^verbatim>\<open>distances[key]\<close>.\<close>

definition get_num :: "(string \<rightharpoonup> jsnum) \<Rightarrow> string \<Rightarrow> jsnum" where
  "get_num obj k =
     (if k = ''__proto__'' then Inherited k
      else (case obj k of
              Some v \<Rightarrow> v
            | None \<Rightarrow> if inherited k then Inherited k else Undefined))"

text \<open>\<^verbatim>\<open>banks[key]\<close>: the own properties of \<^verbatim>\<open>banks\<close> are numbers.\<close>

definition get_charge :: "(string \<rightharpoonup> real) \<Rightarrow> string \<Rightarrow> jsnum" where
  "get_charge banks k =
     (if k = ''__proto__'' then Inherited k
      else (case banks k of
              Some c \<Rightarrow> Num c
            | None \<Rightarrow> if inherited k then Inherited k else Undefined))"

text \<open>\<^verbatim>\<open>predecessors[key]\<close>.\<close>

definition get_node :: "(string \<rightharpoonup> jsval) \<Rightarrow> string \<Rightarrow> jsval" where
  "get_node obj k =
     (if k = ''__proto__'' then JInherited k
      else (case obj k of
              Some v \<Rightarrow> v
            | None \<Rightarrow> if inherited k then JInherited k else JUndefined))"

text \<open>\<^verbatim>\<open>key in obj\<close>: true for an own and for an inherited property.\<close>

definition has_property :: "(string \<rightharpoonup> 'v) \<Rightarrow> string \<Rightarrow> bool" where
  "has_property obj k = (case obj k of Some v \<Rightarrow> True | None \<Rightarrow> inherited k)"

text \<open>What the program throws.\<close>

datatype error = TypeError | RangeError

section \<open>The graph store\<close>

record edge =
  to :: string
  time :: real

type_synonym banks = "string \<rightharpoonup> real"
type_synonym graph = "string \<rightharpoonup> edge list"

text \<open>The own array of links of a node, empty when there is none.\<close>

definition edges_from :: "graph \<Rightarrow> string \<Rightarrow> edge list" where
  "edges_from graph k = (case graph k of None \<Rightarrow> [] | Some es \<Rightarrow> es)"

text \<open>
  \<^verbatim>\<open>for (let neighbor of graph[node] || [])\<close>. Loading never gives \<^verbatim>\<open>graph\<close> an own
  property under an inherited name (see \<open>load_link\<close>, and the lemma
  \<open>load_links_no_inherited\<close>), so under such a name \<^verbatim>\<open>graph[node]\<close> is the inherited
  function or object: it is truthy and not iterable, and the loop throws a \<^verbatim>\<open>TypeError\<close>.
  Under any other name it is the own array, or \<^verbatim>\<open>undefined\<close> and then \<^verbatim>\<open>[]\<close>.
\<close>

definition neighbors :: "graph \<Rightarrow> string \<Rightarrow> error + edge list" where
  "neighbors graph k = (if inherited k then Inl TypeError else Inr (edges_from graph k))"

text \<open>
  \<^verbatim>\<open>loadDataToMemory\<close>, from the rows the two SELECT statements return: a bank row is
  (BIC, Charge), a link row is (FromBIC, ToBIC, TimeTakenInMinutes).
\<close>

text \<open>\<^verbatim>\<open>banks[row.BIC] = row.Charge\<close>.\<close>

definition load_bank :: "banks \<Rightarrow> string \<times> real \<Rightarrow> banks" where
  "load_bank banks row = put banks (fst row) (snd row)"

text \<open>The object \<^verbatim>\<open>{ to: row.ToBIC, time: row.TimeTakenInMinutes }\<close>.\<close>

definition edge_of_row :: "string \<times> string \<times> real \<Rightarrow> edge" where
  "edge_of_row row = \<lparr>to = fst (snd row), time = snd (snd row)\<rparr>"

text \<open>
  \<^verbatim>\<open>if (!graph[row.FromBIC]) graph[row.FromBIC] = []; graph[row.FromBIC].push(...)\<close>.
  Under an inherited name \<^verbatim>\<open>graph[row.FromBIC]\<close> is truthy, no array is made, and the
  inherited value has no \<^verbatim>\<open>push\<close>: the call throws a \<^verbatim>\<open>TypeError\<close>.
\<close>

definition load_link :: "graph \<Rightarrow> string \<times> string \<times> real \<Rightarrow> error + graph" where
  "load_link graph row =
     (if inherited (fst row) then Inl TypeError
      else
        (let graph1 = (if graph (fst row) = None then graph(fst row \<mapsto> []) else graph)
         in Inr (graph1(fst row \<mapsto> edges_from graph1 (fst row) @ [edge_of_row row]))))"

definition load_banks :: "(string \<times> real) list \<Rightarrow> banks" where
  "load_banks rows = foldl load_bank Map.empty rows"

text \<open>\<^verbatim>\<open>rows.forEach\<close> over the link rows stops at the first row that throws.\<close>

fun load_links_from :: "graph \<Rightarrow> (string \<times> string \<times> real) list \<Rightarrow> error + graph" where
  "load_links_from graph [] = Inr graph"
| "load_links_from graph (row # rows) =
     (case load_link graph row of
        Inl e \<Rightarrow> Inl e
      | Inr graph1 \<Rightarrow> load_links_from graph1 rows)"

definition load_links :: "(string \<times> string \<times> real) list \<Rightarrow> error + graph" where
  "load_links rows = load_links_from Map.empty rows"

section \<open>The priority queue\<close>

text \<open>
  Modelled from the spec: the class \<^verbatim>\<open>Heap\<close> comes from the npm package \<^verbatim>\<open>heap\<close>, which is
  not among the sources. The spec asks for a min-priority queue keyed by tentative
  distance, without decrease-key. The model is the package's binary heap in an array:
  \<^verbatim>\<open>push\<close> appends the item and moves it towards the root while it compares strictly
  smaller than its parent; \<^verbatim>\<open>pop\<close> removes the last slot, returns the root and lets the
  former last item sink from the root. The comparator is the one the source passes,
  \<^verbatim>\<open>(a, b) => a.distance - b.distance\<close>, and the heap tests \<^verbatim>\<open>cmp(x, y) < 0\<close>.
\<close>

record entry =
  node :: jsval
  distance :: jsnum

definition cmp_lt :: "entry \<Rightarrow> entry \<Rightarrow> bool" where
  "cmp_lt a b = js_lt (js_sub (distance a) (distance b)) (Num 0)"

text \<open>
  \<^verbatim>\<open>_siftdown(array, startpos, pos)\<close>: \<^verbatim>\<open>newitem = array[pos]\<close>, then the loop
  \<^verbatim>\<open>while (pos > startpos)\<close>, then \<^verbatim>\<open>array[pos] = newitem\<close>.
\<close>

function siftdown_loop :: "entry \<Rightarrow> nat \<Rightarrow> entry list \<Rightarrow> nat \<Rightarrow> entry list" where
  "siftdown_loop newitem startpos array pos =
     (if pos > startpos then
        (let parentpos = (pos - 1) div 2; parent = array ! parentpos
         in if cmp_lt newitem parent
            then siftdown_loop newitem startpos (array[pos := parent]) parentpos
            else array[pos := newitem])
      else array[pos := newitem])"
  by pat_completeness auto
termination
  by (relation "measure (\<lambda>(newitem, startpos, array, pos). pos)") auto

declare siftdown_loop.simps [simp del]

definition siftdown :: "entry list \<Rightarrow> nat \<Rightarrow> nat \<Rightarrow> entry list" where
  "siftdown array startpos pos = siftdown_loop (array ! pos) startpos array pos"

text \<open>
  \<^verbatim>\<open>_siftup(array, pos)\<close>: \<^verbatim>\<open>newitem = array[pos]\<close>, then the loop
  \<^verbatim>\<open>while (childpos < endpos)\<close> that moves the smaller child up (the right one unless the
  left one compares strictly smaller), then \<^verbatim>\<open>array[pos] = newitem\<close> and
  \<^verbatim>\<open>_siftdown(array, startpos, pos)\<close>.
\<close>

function siftup_loop :: "entry \<Rightarrow> nat \<Rightarrow> entry list \<Rightarrow> nat \<Rightarrow> entry list" where
  "siftup_loop newitem startpos array pos =
     (let childpos = 2 * pos + 1 in
      if childpos < length array then
        (let rightpos = childpos + 1;
             childpos1 = (if rightpos < length array
                             \<and> \<not> cmp_lt (array ! childpos) (array ! rightpos)
                          then rightpos else childpos)
         in siftup_loop newitem startpos (array[pos := array ! childpos1]) childpos1)
      else siftdown (array[pos := newitem]) startpos pos)"
  by pat_completeness auto
termination
  by (relation "measure (\<lambda>(newitem, startpos, array, pos). length array - pos)") auto

declare siftup_loop.simps [simp del]

definition siftup :: "entry list \<Rightarrow> nat \<Rightarrow> entry list" where
  "siftup array pos = siftup_loop (array ! pos) pos array pos"

text \<open>\<^verbatim>\<open>push\<close>: \<^verbatim>\<open>array.push(item); _siftdown(array, 0, array.length - 1)\<close>.\<close>

definition heappush :: "entry list \<Rightarrow> entry \<Rightarrow> entry list" where
  "heappush array item = siftdown (array @ [item]) 0 (length array)"

text \<open>
  \<^verbatim>\<open>pop\<close>: \<^verbatim>\<open>lastelt = array.pop()\<close>; if the array still has items, the root is returned,
  \<^verbatim>\<open>array[0] = lastelt\<close> and \<^verbatim>\<open>_siftup(array, 0)\<close>; otherwise \<^verbatim>\<open>lastelt\<close> is returned. The
  source only calls it on a queue that is not empty (\<^verbatim>\<open>while (!pq.empty())\<close>).
\<close>

definition heappop :: "entry list \<Rightarrow> entry \<times> entry list" where
  "heappop array =
     (let lastelt = last array; array1 = butlast array
      in if array1 \<noteq> [] then (array1 ! 0, siftup (array1[0 := lastelt]) 0)
         else (lastelt, array1))"

section \<open>The two searches\<close>

record state =
  distances :: "string \<rightharpoonup> jsnum"
  predecessors :: "string \<rightharpoonup> jsval"
  pq :: "entry list"

text \<open>
  The body of \<^verbatim>\<open>for (let neighbor of ...)\<close>. The two searches differ in one line, the
  candidate distance: \<^verbatim>\<open>current.distance + neighbor.time\<close> in \<^verbatim>\<open>dijkstraFastest\<close>,
  \<^verbatim>\<open>current.distance + banks[neighbor.to]\<close> in \<^verbatim>\<open>dijkstraCheapest\<close>. It is the parameter
  \<open>newDist\<close>. The test is \<^verbatim>\<open>newDist < (distances[neighbor.to] || Infinity)\<close>.
\<close>

definition relax :: "(jsnum \<Rightarrow> edge \<Rightarrow> jsnum) \<Rightarrow> entry \<Rightarrow> state \<Rightarrow> edge \<Rightarrow> state" where
  "relax newDist current s neighbor =
     (let d = newDist (distance current) neighbor in
      if js_lt d (js_or (get_num (distances s) (to neighbor)) Infinity)
      then s\<lparr>distances := put (distances s) (to neighbor) d,
             predecessors := put (predecessors s) (to neighbor) (node current),
             pq := heappush (pq s) \<lparr>node = JString (to neighbor), distance = d\<rparr>\<rparr>
      else s)"

text \<open>
  The \<^verbatim>\<open>while (!pq.empty())\<close> loop. It may run forever, so its result is an option:
  \<open>None\<close> means that the loop does not end. When it ends, it has thrown (\<open>Inl\<close>) or left
  a state (\<open>Inr\<close>).
\<close>

partial_function (option) search_loop ::
  "graph \<Rightarrow> (jsnum \<Rightarrow> edge \<Rightarrow> jsnum) \<Rightarrow> jsval \<Rightarrow> state \<Rightarrow> (error + state) option" where
  "search_loop graph newDist end_node s =
     (if pq s = [] then Some (Inr s)
      else
        (let current = fst (heappop (pq s)); s1 = s\<lparr>pq := snd (heappop (pq s))\<rparr>
         in if node current = end_node then Some (Inr s1)
            else if js_gt (distance current) (get_num (distances s1) (to_key (node current)))
            then search_loop graph newDist end_node s1
            else (case neighbors graph (to_key (node current)) of
                    Inl e \<Rightarrow> Some (Inl e)
                  | Inr es \<Rightarrow>
                      search_loop graph newDist end_node (foldl (relax newDist current) s1 es))))"

declare search_loop.simps [code]

text \<open>
  An array holds at most \<^verbatim>\<open>2^32 - 1\<close> elements: \<^verbatim>\<open>push\<close> on an array of that length throws a
  \<^verbatim>\<open>RangeError\<close> (an engine may give up earlier, with the same error).
\<close>

definition max_array_length :: int where
  "max_array_length = 4294967295"

text \<open>
  The second loop, \<^verbatim>\<open>while (current !== start) { path.push(current); current =
  predecessors[current]; }\<close>. Each turn makes the path longer, so the loop ends: it
  reaches the start node, or \<^verbatim>\<open>push\<close> throws.
\<close>

function walk_back ::
  "(string \<rightharpoonup> jsval) \<Rightarrow> jsval \<Rightarrow> jsval \<Rightarrow> jsval list \<Rightarrow> error + jsval list" where
  "walk_back preds start current path =
     (if current \<noteq> start
      then (if int (length path) < max_array_length
            then walk_back preds start (get_node preds (to_key current)) (path @ [current])
            else Inl RangeError)
      else Inr path)"
  by pat_completeness auto
termination
  by (relation "measure (\<lambda>(preds, start, current, path). nat (max_array_length - int (length path)))") auto

declare walk_back.simps [simp del]

text \<open>What a search returns: \<^verbatim>\<open>null\<close>, or an object with the path and its weight.\<close>

datatype result = Null | Found "jsval list" jsnum

text \<open>
  The state before the first iteration: \<^verbatim>\<open>distances[start] = d0; pq.push({ node: start,
  distance: d0 })\<close>, where \<open>d0\<close> is \<^verbatim>\<open>0\<close> in \<^verbatim>\<open>dijkstraFastest\<close> and \<^verbatim>\<open>banks[start]\<close> in
  \<^verbatim>\<open>dijkstraCheapest\<close>.
\<close>

definition init_state :: "jsval \<Rightarrow> jsnum \<Rightarrow> state" where
  "init_state start d0 =
     \<lparr>distances = put Map.empty (to_key start) d0,
      predecessors = Map.empty,
      pq = heappush [] \<lparr>node = start, distance = d0\<rparr>\<rparr>"

text \<open>
  The common text of \<^verbatim>\<open>dijkstraFastest\<close> and \<^verbatim>\<open>dijkstraCheapest\<close>: the loop, the test
  \<^verbatim>\<open>!(end in distances)\<close>, the walk along the predecessors, \<^verbatim>\<open>path.push(start)\<close> and
  \<^verbatim>\<open>path.reverse()\<close>. \<open>None\<close>: the call does not return; \<open>Inl\<close>: it throws.
\<close>

definition dijkstra ::
  "graph \<Rightarrow> (jsnum \<Rightarrow> edge \<Rightarrow> jsnum) \<Rightarrow> jsnum \<Rightarrow> jsval \<Rightarrow> jsval \<Rightarrow> (error + result) option" where
  "dijkstra graph newDist d0 start end_node =
     (case search_loop graph newDist end_node (init_state start d0) of
        None \<Rightarrow> None
      | Some (Inl e) \<Rightarrow> Some (Inl e)
      | Some (Inr s) \<Rightarrow>
          if \<not> has_property (distances s) (to_key end_node) then Some (Inr Null)
          else (case walk_back (predecessors s) start end_node [] of
                  Inl e \<Rightarrow> Some (Inl e)
                | Inr p \<Rightarrow>
                    if int (length p) < max_array_length
                    then Some (Inr (Found (rev (p @ [start]))
                                          (get_num (distances s) (to_key end_node))))
                    else Some (Inl RangeError)))"

text \<open>\<^verbatim>\<open>let newDist = current.distance + neighbor.time\<close>.\<close>

definition newDist_fastest :: "jsnum \<Rightarrow> edge \<Rightarrow> jsnum" where
  "newDist_fastest d neighbor = js_add d (Num (time neighbor))"

text \<open>\<^verbatim>\<open>let newDist = current.distance + banks[neighbor.to]\<close>.\<close>

definition newDist_cheapest :: "banks \<Rightarrow> jsnum \<Rightarrow> edge \<Rightarrow> jsnum" where
  "newDist_cheapest banks d neighbor = js_add d (get_charge banks (to neighbor))"

definition dijkstraFastest :: "graph \<Rightarrow> jsval \<Rightarrow> jsval \<Rightarrow> (error + result) option" where
  "dijkstraFastest graph start end_node =
     dijkstra graph newDist_fastest (Num 0) start end_node"

definition dijkstraCheapest ::
  "banks \<Rightarrow> graph \<Rightarrow> jsval \<Rightarrow> jsval \<Rightarrow> (error + result) option" where
  "dijkstraCheapest banks graph start end_node =
     dijkstra graph (newDist_cheapest banks) (get_charge banks (to_key start)) start end_node"

section \<open>The two endpoints\<close>

record request =
  fromBank :: jsval
  toBank :: jsval

datatype body = Error string | RouteTime string jsnum | RouteCost string jsnum | Uncaught error

record response =
  status :: nat
  body :: body

text \<open>
  \<^verbatim>\<open>path.join(' -> ')\<close>: an \<^verbatim>\<open>undefined\<close> element is written as the empty string, a
  function or an object as its text.
\<close>

fun show_node :: "jsval \<Rightarrow> string" where
  "show_node JUndefined = []"
| "show_node (JString s) = s"
| "show_node (JInherited k) = inherited_text k"

fun join_arrow :: "jsval list \<Rightarrow> string" where
  "join_arrow [] = []"
| "join_arrow [x] = show_node x"
| "join_arrow (x # y # ys) = show_node x @ '' -> '' @ join_arrow (y # ys)"

text \<open>\<^verbatim>\<open>!banks[fromBank] || !banks[toBank]\<close>.\<close>

definition invalid_bank :: "banks \<Rightarrow> request \<Rightarrow> bool" where
  "invalid_bank banks req =
     (\<not> truthy (get_charge banks (to_key (fromBank req)))
      \<or> \<not> truthy (get_charge banks (to_key (toBank req))))"

definition fastest_reply :: "result \<Rightarrow> response" where
  "fastest_reply r =
     (case r of
        Null \<Rightarrow> \<lparr>status = 404, body = Error ''No path found''\<rparr>
      | Found p t \<Rightarrow> \<lparr>status = 200, body = RouteTime (join_arrow p) t\<rparr>)"

definition cheapest_reply :: "result \<Rightarrow> response" where
  "cheapest_reply r =
     (case r of
        Null \<Rightarrow> \<lparr>status = 404, body = Error ''No path found''\<rparr>
      | Found p c \<Rightarrow> \<lparr>status = 200, body = RouteCost (join_arrow p) c\<rparr>)"

text \<open>
  What the client gets once the search has ended: when the search throws, the exception
  leaves the handler and Express answers with status 500; otherwise the handler answers
  from the result.
\<close>

definition answer :: "(result \<Rightarrow> response) \<Rightarrow> error + result \<Rightarrow> response" where
  "answer reply outcome =
     (case outcome of
        Inl e \<Rightarrow> \<lparr>status = 500, body = Uncaught e\<rparr>
      | Inr r \<Rightarrow> reply r)"

text \<open>
  The handlers. \<open>None\<close>: the handler never answers, because the search does not return.
  In the first branch the handler returns before the search is called.
\<close>

definition fastestroute :: "banks \<Rightarrow> graph \<Rightarrow> request \<Rightarrow> response option" where
  "fastestroute banks graph req =
     (if invalid_bank banks req
      then Some \<lparr>status = 400, body = Error ''Invalid bank BIC''\<rparr>
      else map_option (answer fastest_reply)
             (dijkstraFastest graph (fromBank req) (toBank req)))"

definition cheapestroute :: "banks \<Rightarrow> graph \<Rightarrow> request \<Rightarrow> response option" where
  "cheapestroute banks graph req =
     (if invalid_bank banks req
      then Some \<lparr>status = 400, body = Error ''Invalid bank BIC''\<rparr>
      else map_option (answer cheapest_reply)
             (dijkstraCheapest banks graph (fromBank req) (toBank req)))"

section \<open>Notions of the specification\<close>


text \<open>
  A directed route from a node: a list of edges, each taken from the adjacency list of the
  node the previous one leads to. \<open>route_end\<close> gives the node the route arrives at, or
  \<open>None\<close> when the list is not a route of the graph. Its total edge time is the sum of the
  times of its edges.
\<close>

fun route_end :: "graph \<Rightarrow> string \<Rightarrow> edge list \<Rightarrow> string option" where
  "route_end graph a [] = Some a"
| "route_end graph a (e # es) =
     (if e \<in> set (edges_from graph a) then route_end graph (to e) es else None)"

definition route_time :: "edge list \<Rightarrow> real" where
  "route_time es = sum_list (map time es)"

text \<open>
  A node is reachable from \<open>a\<close> when some route from \<open>a\<close> arrives at it; the empty route
  arrives at \<open>a\<close> itself.
\<close>

definition reach :: "graph \<Rightarrow> string \<Rightarrow> string \<Rightarrow> bool" where
  "reach g a k = (\<exists>es. route_end g a es = Some k)"

text \<open>
  What both searches keep true from the start node \<open>a\<close>: a node with a recorded distance is
  reachable from \<open>a\<close>, and so is the node of every entry in the queue.
\<close>

definition reach_inv :: "graph \<Rightarrow> string \<Rightarrow> state \<Rightarrow> bool" where
  "reach_inv g a s =
     ((\<forall>k. distances s k \<noteq> None \<longrightarrow> reach g a k)
      \<and> (\<forall>x \<in> set (pq s). reach g a (to_key (node x))))"


section \<open>Inputs\<close>

text \<open>The graph that loading a list of link rows gives, when loading does not throw.\<close>

definition loaded :: "(string \<times> string \<times> real) list \<Rightarrow> graph" where
  "loaded rows = projr (load_links rows)"

text \<open>
  The scenario of the specification: nodes A (charge 1), B (charge 2), C (charge 1); links
  A to B in 4 minutes, B to C in 1 minute, A to C in 10 minutes.
\<close>

definition scenario_banks :: banks where
  "scenario_banks = load_banks [(''A'', 1), (''B'', 2), (''C'', 1)]"

definition scenario_graph :: graph where
  "scenario_graph = loaded [(''A'', ''B'', 4), (''B'', ''C'', 1), (''A'', ''C'', 10)]"

text \<open>The same links with other times.\<close>

definition scenario_graph_slow :: graph where
  "scenario_graph_slow = loaded [(''A'', ''B'', 40), (''B'', ''C'', 0), (''A'', ''C'', 7)]"

text \<open>Two parallel links from A to B, the first one taking no time.\<close>

definition zero_parallel_banks :: banks where
  "zero_parallel_banks = load_banks [(''A'', 1), (''B'', 1)]"

definition zero_parallel_graph :: graph where
  "zero_parallel_graph = loaded [(''A'', ''B'', 0), (''A'', ''B'', 3)]"

text \<open>
  Three banks; A and B are linked in both directions by links that take no time, and no
  link leads to C.
\<close>

definition zero_cycle_banks :: banks where
  "zero_cycle_banks = load_banks [(''A'', 1), (''B'', 1), (''C'', 1)]"

definition zero_cycle_graph :: graph where
  "zero_cycle_graph = loaded [(''A'', ''B'', 0), (''B'', ''A'', 0)]"

text \<open>
  What holds before every iteration of the fastest search from A on that graph: the queue
  holds one entry, of distance 0, for A or for B.
\<close>

definition zero_cycle_inv :: "state \<Rightarrow> bool" where
  "zero_cycle_inv s =
     (distances s ''A'' = Some (Num 0)
      \<and> (if pq s = [\<lparr>node = JString ''A'', distance = Num 0\<rparr>]
         then distances s ''B'' = None \<or> distances s ''B'' = Some (Num 0)
         else pq s = [\<lparr>node = JString ''B'', distance = Num 0\<rparr>]
              \<and> distances s ''B'' = Some (Num 0)))"

text \<open>
  A link from A to B in 2 minutes and one back in 3 minutes; and the state of the fastest
  search from A when B has been popped with distance 2.
\<close>

definition back_edge_graph :: graph where
  "back_edge_graph = loaded [(''A'', ''B'', 2), (''B'', ''A'', 3)]"

definition back_edge_state :: state where
  "back_edge_state =
     \<lparr>distances = [''A'' \<mapsto> Num 0, ''B'' \<mapsto> Num 2],
      predecessors = [''B'' \<mapsto> JString ''A''],
      pq = []\<rparr>"

text \<open>
  Links that take no time from A to B, from B to C and to E, and from C back to B.
\<close>

definition pred_cycle_graph :: graph where
  "pred_cycle_graph = loaded [(''A'', ''B'', 0), (''B'', ''C'', 0), (''B'', ''E'', 0), (''C'', ''B'', 0)]"

text \<open>Two parallel links from A to a node named \<^verbatim>\<open>constructor\<close>.\<close>

definition constructor_graph :: graph where
  "constructor_graph = loaded [(''A'', ''constructor'', 5), (''A'', ''constructor'', 3)]"

section \<open>Inherited names\<close>

lemma inherited_proto: "inherited ''__proto__''"
  by (simp add: inherited_def inherited_names_def)

lemma not_inherited_not_proto: "\<not> inherited k \<Longrightarrow> k \<noteq> ''__proto__''"
  using inherited_proto by auto


lemma inherited_letters:
  "\<not> inherited ''A''" "\<not> inherited ''B''" "\<not> inherited ''C''" "\<not> inherited ''E''" "\<not> inherited ''Z''"
  by (simp_all add: inherited_def inherited_names_def)

section \<open>Loading\<close>

text \<open>
  When no link row leaves a node with an inherited name, loading does not throw, and the
  array of a node holds one edge for each row that leaves it, in the order of the rows.
\<close>

lemma edges_from_load_link:
  "\<not> inherited (fst row) \<Longrightarrow>
     \<exists>g'. load_link g row = Inr g'
       \<and> (\<forall>f. edges_from g' f
               = (if fst row = f then edges_from g f @ [edge_of_row row] else edges_from g f))"
  by (simp add: load_link_def edges_from_def Let_def)

lemma load_links_from_plain:
  "\<forall>row \<in> set rows. \<not> inherited (fst row) \<Longrightarrow>
     \<exists>g'. load_links_from g rows = Inr g'
       \<and> (\<forall>f. edges_from g' f
               = edges_from g f @ map edge_of_row (filter (\<lambda>row. fst row = f) rows))"
proof (induction rows arbitrary: g)
  case Nil
  then show ?case by simp
next
  case (Cons row rows)
  from Cons.prems have "\<not> inherited (fst row)" by simp
  from edges_from_load_link[OF this, of g] obtain g1 where
    g1: "load_link g row = Inr g1"
    and e1: "\<forall>f. edges_from g1 f
               = (if fst row = f then edges_from g f @ [edge_of_row row] else edges_from g f)"
    by blast
  from Cons.prems have "\<forall>row \<in> set rows. \<not> inherited (fst row)" by simp
  from Cons.IH[OF this, of g1] obtain g' where
    g': "load_links_from g1 rows = Inr g'"
    and e': "\<forall>f. edges_from g' f
               = edges_from g1 f @ map edge_of_row (filter (\<lambda>row. fst row = f) rows)"
    by blast
  from g1 g' have "load_links_from g (row # rows) = Inr g'" by simp
  moreover from e1 e' have "\<forall>f. edges_from g' f
               = edges_from g f @ map edge_of_row (filter (\<lambda>r. fst r = f) (row # rows))"
    by simp
  ultimately show ?case by blast
qed

lemma load_links_plain:
  assumes "\<forall>row \<in> set rows. \<not> inherited (fst row)"
  shows "load_links rows = Inr (loaded rows)"
    and "edges_from (loaded rows) f = map edge_of_row (filter (\<lambda>row. fst row = f) rows)"
proof -
  from load_links_from_plain[OF assms, of Map.empty] obtain g' where
    g': "load_links rows = Inr g'"
    and e': "\<forall>f. edges_from g' f
               = edges_from Map.empty f @ map edge_of_row (filter (\<lambda>row. fst row = f) rows)"
    unfolding load_links_def by blast
  from g' have l: "loaded rows = g'" by (simp add: loaded_def)
  from g' l show "load_links rows = Inr (loaded rows)" by simp
  from e' l show "edges_from (loaded rows) f = map edge_of_row (filter (\<lambda>row. fst row = f) rows)"
    by (simp add: edges_from_def)
qed

text \<open>
  Loading gives the graph no own property under an inherited name: a link row that leaves
  such a node throws, and the rows before it leave other nodes.
\<close>

lemma load_link_no_inherited:
  "load_link g row = Inr g' \<Longrightarrow> \<forall>k. inherited k \<longrightarrow> g k = None \<Longrightarrow>
     \<forall>k. inherited k \<longrightarrow> g' k = None"
  by (auto simp: load_link_def Let_def split: if_splits)

lemma load_links_from_no_inherited:
  "load_links_from g rows = Inr g' \<Longrightarrow> \<forall>k. inherited k \<longrightarrow> g k = None \<Longrightarrow>
     \<forall>k. inherited k \<longrightarrow> g' k = None"
proof (induction rows arbitrary: g)
  case Nil
  then show ?case by simp
next
  case (Cons row rows)
  from Cons.prems(1) obtain g1 where g1: "load_link g row = Inr g1"
    and rest: "load_links_from g1 rows = Inr g'"
    by (auto split: sum.splits)
  from load_link_no_inherited[OF g1 Cons.prems(2)] have "\<forall>k. inherited k \<longrightarrow> g1 k = None" .
  with rest show ?case by (rule Cons.IH)
qed

lemma load_links_no_inherited:
  "load_links rows = Inr g \<Longrightarrow> inherited k \<Longrightarrow> g k = None"
  unfolding load_links_def using load_links_from_no_inherited[of Map.empty rows g] by simp


lemma scenario_graph_links:
  "edges_from scenario_graph k =
     (if k = ''A'' then [\<lparr>to = ''B'', time = 4\<rparr>, \<lparr>to = ''C'', time = 10\<rparr>]
      else if k = ''B'' then [\<lparr>to = ''C'', time = 1\<rparr>] else [])"
  unfolding scenario_graph_def
  by (subst load_links_plain(2)) (simp_all add: inherited_letters edge_of_row_def)

lemma scenario_graph_slow_links:
  "edges_from scenario_graph_slow k =
     (if k = ''A'' then [\<lparr>to = ''B'', time = 40\<rparr>, \<lparr>to = ''C'', time = 7\<rparr>]
      else if k = ''B'' then [\<lparr>to = ''C'', time = 0\<rparr>] else [])"
  unfolding scenario_graph_slow_def
  by (subst load_links_plain(2)) (simp_all add: inherited_letters edge_of_row_def)

lemma zero_cycle_links:
  "edges_from zero_cycle_graph k =
     (if k = ''A'' then [\<lparr>to = ''B'', time = 0\<rparr>]
      else if k = ''B'' then [\<lparr>to = ''A'', time = 0\<rparr>] else [])"
  unfolding zero_cycle_graph_def
  by (subst load_links_plain(2)) (simp_all add: inherited_letters edge_of_row_def)

lemma inputs_loaded:
  "load_links [(''A'', ''B'', 4), (''B'', ''C'', 1), (''A'', ''C'', 10)] = Inr scenario_graph"
  "load_links [(''A'', ''B'', 0), (''A'', ''B'', 3)] = Inr zero_parallel_graph"
  "load_links [(''A'', ''B'', 0), (''B'', ''A'', 0)] = Inr zero_cycle_graph"
  "load_links [(''A'', ''B'', 2), (''B'', ''A'', 3)] = Inr back_edge_graph"
  "load_links [(''A'', ''constructor'', 5), (''A'', ''constructor'', 3)] = Inr constructor_graph"
  unfolding scenario_graph_def zero_parallel_graph_def zero_cycle_graph_def
      back_edge_graph_def constructor_graph_def
  by (rule load_links_plain(1), simp add: inherited_letters)+

section \<open>The queue with one entry\<close>

lemma siftdown_loop_root: "siftdown_loop x 0 array 0 = array[0 := x]"
  by (subst siftdown_loop.simps) simp

lemma heappush_empty: "heappush [] x = [x]"
  by (simp add: heappush_def siftdown_def siftdown_loop_root)

lemma heappop_single: "heappop [x] = (x, [])"
  by (simp add: heappop_def)

section \<open>The queue with two entries\<close>

lemma heappush_second: "heappush [x] y = (if cmp_lt y x then [y, x] else [x, y])"
  by (simp add: heappush_def siftdown_def siftdown_loop.simps[of _ _ _ "Suc 0"] siftdown_loop_root)

lemma cmp_lt_numbers:
  "cmp_lt \<lparr>node = m, distance = Num a\<rparr> \<lparr>node = n, distance = Num b\<rparr> = (a < b)"
  by (simp add: cmp_lt_def js_sub_def js_lt_def)

lemma heappop_pair: "heappop [x, y] = (x, [y])"
  by (simp add: heappop_def siftup_def siftdown_def siftup_loop.simps[of _ _ "[y]"] siftdown_loop_root)

section \<open>The queue holds no entry that was not pushed\<close>

lemma set_siftdown_loop:
  "pos < length array \<Longrightarrow> set (siftdown_loop x sp array pos) \<subseteq> insert x (set array)"
proof (induction x sp array pos rule: siftdown_loop.induct)
  case (1 newitem startpos array pos)
  show ?case
  proof (cases "pos > startpos \<and> cmp_lt newitem (array ! ((pos - 1) div 2))")
    case True
    then have pp: "(pos - 1) div 2 < length array" using "1.prems" by simp
    have "set (siftdown_loop newitem startpos (array[pos := array ! ((pos - 1) div 2)]) ((pos - 1) div 2))
            \<subseteq> insert newitem (set (array[pos := array ! ((pos - 1) div 2)]))"
      using True pp by (intro "1.IH") simp_all
    also have "\<dots> \<subseteq> insert newitem (set array)"
      using set_update_subset_insert[of array pos "array ! ((pos - 1) div 2)"] pp by auto
    finally have sub: "set (siftdown_loop newitem startpos (array[pos := array ! ((pos - 1) div 2)]) ((pos - 1) div 2))
            \<subseteq> insert newitem (set array)" .
    have eq: "siftdown_loop newitem startpos array pos
                = siftdown_loop newitem startpos (array[pos := array ! ((pos - 1) div 2)]) ((pos - 1) div 2)"
      using True by (subst siftdown_loop.simps) (simp add: Let_def)
    show ?thesis unfolding eq by (rule sub)
  next
    case False
    then have "siftdown_loop newitem startpos array pos = array[pos := newitem]"
      by (subst siftdown_loop.simps) (auto simp: Let_def)
    then show ?thesis
      using set_update_subset_insert[of array pos newitem] by simp
  qed
qed

lemma set_siftdown:
  "pos < length array \<Longrightarrow> set (siftdown array sp pos) \<subseteq> set array"
  using set_siftdown_loop[of pos array "array ! pos" sp] by (auto simp: siftdown_def)

lemma set_heappush: "set (heappush q x) \<subseteq> insert x (set q)"
  using set_siftdown[of "length q" "q @ [x]" 0] by (auto simp: heappush_def)

lemma set_siftup_loop:
  "pos < length array \<Longrightarrow> set (siftup_loop x sp array pos) \<subseteq> insert x (set array)"
proof (induction x sp array pos rule: siftup_loop.induct)
  case (1 newitem startpos array pos)
  show ?case
  proof (cases "2 * pos + 1 < length array")
    case True
    define c where "c = (if 2 * pos + 1 + 1 < length array
                             \<and> \<not> cmp_lt (array ! (2 * pos + 1)) (array ! (2 * pos + 1 + 1))
                          then 2 * pos + 1 + 1 else 2 * pos + 1)"
    have c: "c < length array" using True by (simp add: c_def)
    have "set (siftup_loop newitem startpos (array[pos := array ! c]) c)
            \<subseteq> insert newitem (set (array[pos := array ! c]))"
      using True c by (intro "1.IH"[of "2 * pos + 1" "2 * pos + 1 + 1" c]) (simp_all add: c_def)
    also have "\<dots> \<subseteq> insert newitem (set array)"
      using set_update_subset_insert[of array pos "array ! c"] c by auto
    finally have sub: "set (siftup_loop newitem startpos (array[pos := array ! c]) c)
            \<subseteq> insert newitem (set array)" .
    have eq: "siftup_loop newitem startpos array pos
                = siftup_loop newitem startpos (array[pos := array ! c]) c"
      using True by (subst siftup_loop.simps) (simp add: Let_def c_def)
    show ?thesis unfolding eq by (rule sub)
  next
    case False
    then have "siftup_loop newitem startpos array pos = siftdown (array[pos := newitem]) startpos pos"
      by (subst siftup_loop.simps) (simp add: Let_def)
    moreover have "set (siftdown (array[pos := newitem]) startpos pos) \<subseteq> set (array[pos := newitem])"
      using "1.prems" by (intro set_siftdown) simp
    ultimately show ?thesis
      using set_update_subset_insert[of array pos newitem] by auto
  qed
qed

lemma set_siftup: "pos < length array \<Longrightarrow> set (siftup array pos) \<subseteq> set array"
  using set_siftup_loop[of pos array "array ! pos" pos] by (auto simp: siftup_def)

lemma heappop_fst: "q \<noteq> [] \<Longrightarrow> fst (heappop q) \<in> set q"
proof -
  assume q: "q \<noteq> []"
  show ?thesis
  proof (cases "butlast q = []")
    case True
    with q show ?thesis by (simp add: heappop_def Let_def)
  next
    case False
    then have "0 < length (butlast q)" by (rule length_greater_0_conv[THEN iffD2])
    then have "butlast q ! 0 \<in> set (butlast q)" by (rule nth_mem)
    then have "butlast q ! 0 \<in> set q" by (rule in_set_butlastD)
    with False show ?thesis by (simp add: heappop_def Let_def)
  qed
qed

lemma heappop_snd: "q \<noteq> [] \<Longrightarrow> set (snd (heappop q)) \<subseteq> set q"
proof -
  assume q: "q \<noteq> []"
  show ?thesis
  proof (cases "butlast q = []")
    case True
    then show ?thesis by (simp add: heappop_def Let_def)
  next
    case False
    then have "0 < length (butlast q)" by (rule length_greater_0_conv[THEN iffD2])
    then have "0 < length ((butlast q)[0 := last q])"
      by (simp only: length_list_update)
    then have "set (siftup ((butlast q)[0 := last q]) 0) \<subseteq> set ((butlast q)[0 := last q])"
      by (rule set_siftup)
    also have "\<dots> \<subseteq> insert (last q) (set (butlast q))"
      by (rule set_update_subset_insert)
    also have "\<dots> \<subseteq> set q"
      using q by (auto dest: in_set_butlastD)
    finally show ?thesis using False by (simp add: heappop_def Let_def)
  qed
qed


section \<open>The scenario, run\<close>

lemma scenario_fastest:
  "dijkstraFastest scenario_graph (JString ''A'') (JString ''C'')
     = Some (Inr (Found [JString ''A'', JString ''B'', JString ''C''] (Num 5)))"
  by code_simp

lemma scenario_cheapest:
  "dijkstraCheapest scenario_banks scenario_graph (JString ''A'') (JString ''C'')
     = Some (Inr (Found [JString ''A'', JString ''C''] (Num 2)))"
  by code_simp

section \<open>Start equal to end\<close>

lemma search_loop_hit:
  "search_loop graph newDist e (init_state e d0)
     = Some (Inr \<lparr>distances = put Map.empty (to_key e) d0, predecessors = Map.empty, pq = []\<rparr>)"
  by (subst search_loop.simps) (simp add: init_state_def heappush_empty heappop_single)

lemma walk_back_at_start: "walk_back preds s s p = Inr p"
  by (subst walk_back.simps) simp

lemma has_property_put: "has_property (put Map.empty k v) k"
  by (simp add: has_property_def put_def inherited_proto)

lemma dijkstra_same:
  "dijkstra graph newDist d0 s s
     = Some (Inr (Found [s] (get_num (put Map.empty (to_key s) d0) (to_key s))))"
  by (simp add: dijkstra_def search_loop_hit walk_back_at_start has_property_put
      max_array_length_def)

text \<open>
  For every graph and every node \<open>s\<close> whose name is not \<^verbatim>\<open>__proto__\<close>, the fastest search
  from \<open>s\<close> to \<open>s\<close> returns the path \<open>[s]\<close> with weight 0, and the cheapest search returns
  \<open>[s]\<close> with what \<^verbatim>\<open>banks[s]\<close> holds. The loop pops \<open>s\<close>, finds it equal to the end node and
  stops: no edge has been relaxed, and nothing has been pushed.
\<close>

lemma start_equals_end_plain:
  assumes "to_key s \<noteq> ''__proto__''"
  shows "dijkstraFastest graph s s = Some (Inr (Found [s] (Num 0)))"
    and "dijkstraCheapest banks graph s s = Some (Inr (Found [s] (get_charge banks (to_key s))))"
    and "search_loop graph newDist s (init_state s d0)
           = Some (Inr \<lparr>distances = [to_key s \<mapsto> d0], predecessors = Map.empty, pq = []\<rparr>)"
  using assms
  by (simp_all add: dijkstraFastest_def dijkstraCheapest_def dijkstra_same search_loop_hit
      get_num_def put_def)

text \<open>
  C6 (the code departs from the claim). A bank with the BIC \<^verbatim>\<open>__proto__\<close> and the charge 5
  is loaded. \<^verbatim>\<open>banks['__proto__'] = 5\<close> stores nothing, and \<^verbatim>\<open>banks['__proto__']\<close> reads
  \<^verbatim>\<open>Object.prototype\<close>, which is truthy: the node passes validation. In the search from
  that node to itself, \<^verbatim>\<open>distances[start] = 0\<close> stores nothing either, so the weight
  returned with the path is \<^verbatim>\<open>distances['__proto__']\<close>, the object \<^verbatim>\<open>Object.prototype\<close>:
  not 0 in the fastest search, and not the charge 5 in the cheapest search. Both endpoints
  answer with status 200 and that weight.
\<close>

theorem start_equals_end_proto:
  "load_banks [(''__proto__'', 5)] ''__proto__'' = None
   \<and> get_charge (load_banks [(''__proto__'', 5)]) ''__proto__'' = Inherited ''__proto__''
   \<and> dijkstraFastest graph (JString ''__proto__'') (JString ''__proto__'')
       = Some (Inr (Found [JString ''__proto__''] (Inherited ''__proto__'')))
   \<and> dijkstraCheapest (load_banks [(''__proto__'', 5)]) graph
         (JString ''__proto__'') (JString ''__proto__'')
       = Some (Inr (Found [JString ''__proto__''] (Inherited ''__proto__'')))
   \<and> fastestroute (load_banks [(''__proto__'', 5)]) graph
         \<lparr>fromBank = JString ''__proto__'', toBank = JString ''__proto__''\<rparr>
       = Some \<lparr>status = 200, body = RouteTime ''__proto__'' (Inherited ''__proto__'')\<rparr>
   \<and> cheapestroute (load_banks [(''__proto__'', 5)]) graph
         \<lparr>fromBank = JString ''__proto__'', toBank = JString ''__proto__''\<rparr>
       = Some \<lparr>status = 200, body = RouteCost ''__proto__'' (Inherited ''__proto__'')\<rparr>"
  by (simp add: fastestroute_def cheapestroute_def invalid_bank_def get_charge_def
      load_banks_def load_bank_def put_def dijkstraFastest_def dijkstraCheapest_def dijkstra_same
      get_num_def answer_def fastest_reply_def cheapest_reply_def)

section \<open>The returned path\<close>

text \<open>
  The walk along the predecessors only appends to the path, and its first step appends
  the node it starts from unless that node is the start node.
\<close>

lemma walk_back_shape:
  "walk_back preds start cur p = Inr r \<Longrightarrow>
     (cur = start \<and> r = p) \<or> (cur \<noteq> start \<and> (\<exists>ys. r = p @ cur # ys))"
proof (induction preds start cur p rule: walk_back.induct)
  case (1 preds start current path)
  show ?case
  proof (cases "current = start")
    case True
    with "1.prems" show ?thesis by (simp add: walk_back_at_start)
  next
    case False
    note ne = this
    show ?thesis
    proof (cases "int (length path) < max_array_length")
      case True
      with "1.prems" ne
      have w: "walk_back preds start (get_node preds (to_key current)) (path @ [current]) = Inr r"
        by (simp add: walk_back.simps[of preds start current path])
      from "1.IH"[OF ne True w] ne show ?thesis by auto
    next
      case False
      with "1.prems" ne show ?thesis by (simp add: walk_back.simps[of preds start current path])
    qed
  qed
qed

lemma dijkstra_endpoints:
  assumes "dijkstra graph newDist d0 start e = Some (Inr (Found p w))"
  shows "p \<noteq> [] \<and> hd p = start \<and> last p = e"
proof -
  from assms have "\<exists>preds r. walk_back preds start e [] = Inr r \<and> p = rev (r @ [start])"
    by (auto simp: dijkstra_def split: option.splits sum.splits if_splits)
  then obtain preds r where r: "walk_back preds start e [] = Inr r"
    and p: "p = rev (r @ [start])"
    by blast
  from walk_back_shape[OF r] show ?thesis
    by (auto simp: p last_rev)
qed

text \<open>
  C10. Whenever \<^verbatim>\<open>dijkstraFastest\<close> or \<^verbatim>\<open>dijkstraCheapest\<close> returns an object (not
  \<^verbatim>\<open>null\<close>), its path is not empty, begins with the start node and ends with the end
  node.
\<close>

theorem returned_path_endpoints:
  "(dijkstraFastest graph start e = Some (Inr (Found p1 w1))
      \<longrightarrow> p1 \<noteq> [] \<and> hd p1 = start \<and> last p1 = e)
   \<and> (dijkstraCheapest banks graph start e = Some (Inr (Found p2 w2))
      \<longrightarrow> p2 \<noteq> [] \<and> hd p2 = start \<and> last p2 = e)"
  unfolding dijkstraFastest_def dijkstraCheapest_def
  by (blast dest: dijkstra_endpoints)

theorem returned_path_endpoints_witness:
  "dijkstraFastest scenario_graph (JString ''A'') (JString ''C'')
     = Some (Inr (Found [JString ''A'', JString ''B'', JString ''C''] (Num 5)))
   \<and> dijkstraCheapest scenario_banks scenario_graph (JString ''A'') (JString ''C'')
     = Some (Inr (Found [JString ''A'', JString ''C''] (Num 2)))
   \<and> hd [JString ''A'', JString ''B'', JString ''C''] = JString ''A''
   \<and> last [JString ''A'', JString ''B'', JString ''C''] = JString ''C''
   \<and> hd [JString ''A'', JString ''C''] = JString ''A''
   \<and> last [JString ''A'', JString ''C''] = JString ''C''"
  using returned_path_endpoints
    [of scenario_graph "JString ''A''" "JString ''C''"
        "[JString ''A'', JString ''B'', JString ''C'']" "Num 5"
        scenario_banks "[JString ''A'', JString ''C'']" "Num 2"]
    scenario_fastest scenario_cheapest
  by simp

section \<open>The cheapest search and the edge times\<close>

lemma relax_cheapest_to:
  "to e1 = to e2 \<Longrightarrow> relax (newDist_cheapest banks) c s e1 = relax (newDist_cheapest banks) c s e2"
  by (simp add: relax_def newDist_cheapest_def Let_def)

lemma foldl_relax_cheapest:
  "map to es1 = map to es2 \<Longrightarrow>
     foldl (relax (newDist_cheapest banks) c) s es1 = foldl (relax (newDist_cheapest banks) c) s es2"
proof (induction es1 arbitrary: es2 s)
  case Nil
  then show ?case by simp
next
  case (Cons e1 es1)
  then obtain e2 es2' where es2: "es2 = e2 # es2'" and e: "to e1 = to e2"
    and rest: "map to es1 = map to es2'"
    by (cases es2) auto
  show ?case
    unfolding es2 using Cons.IH[OF rest] relax_cheapest_to[OF e] by simp
qed

lemma neighbors_case:
  "(case neighbors g k of Inl err \<Rightarrow> A err | Inr es \<Rightarrow> B es)
     = (if inherited k then A TypeError else B (edges_from g k))"
  by (simp add: neighbors_def)

lemma search_loop_transfer:
  assumes same: "\<And>c s k. foldl (relax nd c) s (edges_from g1 k) = foldl (relax nd c) s (edges_from g2 k)"
  assumes run: "search_loop g1 nd e s = Some y"
  shows "search_loop g2 nd e s = Some y"
proof -
  have "g1 = g1 \<longrightarrow> nd = nd \<longrightarrow> search_loop g2 nd e s = Some y"
  proof (rule search_loop.raw_induct
      [where P = "\<lambda>g nd' e s y. g = g1 \<longrightarrow> nd' = nd \<longrightarrow> search_loop g2 nd e s = Some y",
       OF _ run])
    fix f :: "graph \<Rightarrow> (jsnum \<Rightarrow> edge \<Rightarrow> jsnum) \<Rightarrow> jsval \<Rightarrow> state \<Rightarrow> (error + state) option"
    fix g nd' e s y
    assume IH: "\<And>g nd' e s y. f g nd' e s = Some y \<Longrightarrow>
                  g = g1 \<longrightarrow> nd' = nd \<longrightarrow> search_loop g2 nd e s = Some y"
    assume step: "(if pq s = [] then Some (Inr s)
      else
        (let current = fst (heappop (pq s)); s1 = s\<lparr>pq := snd (heappop (pq s))\<rparr>
         in if node current = e then Some (Inr s1)
            else if js_gt (distance current) (get_num (distances s1) (to_key (node current)))
            then f g nd' e s1
            else (case neighbors g (to_key (node current)) of
                    Inl err \<Rightarrow> Some (Inl err)
                  | Inr es \<Rightarrow> f g nd' e (foldl (relax nd' current) s1 es)))) = Some y"
    show "g = g1 \<longrightarrow> nd' = nd \<longrightarrow> search_loop g2 nd e s = Some y"
    proof (intro impI)
      assume g: "g = g1" and n: "nd' = nd"
      define current where "current = fst (heappop (pq s))"
      define s1 where "s1 = s\<lparr>pq := snd (heappop (pq s))\<rparr>"
      define s2 where "s2 = foldl (relax nd current) s1 (edges_from g1 (to_key (node current)))"
      have s2': "s2 = foldl (relax nd current) s1 (edges_from g2 (to_key (node current)))"
        unfolding s2_def by (rule same)
      note unf = search_loop.simps[of g2 nd e s, unfolded Let_def neighbors_case,
          folded current_def s1_def, folded s2']
      note st = step[unfolded Let_def g n neighbors_case, folded current_def s1_def, folded s2_def]
      show "search_loop g2 nd e s = Some y"
      proof (cases "pq s = []")
        case True
        with st unf show ?thesis by simp
      next
        case False
        note ne = this
        show ?thesis
        proof (cases "node current = e")
          case True
          with st unf ne show ?thesis by simp
        next
          case False
          note nh = this
          show ?thesis
          proof (cases "js_gt (distance current) (get_num (distances s1) (to_key (node current)))")
            case True
            with st ne nh have "f g1 nd e s1 = Some y" by simp
            from IH[OF this] have "search_loop g2 nd e s1 = Some y" by simp
            with unf ne nh True show ?thesis by simp
          next
            case False
            note ng = this
            show ?thesis
            proof (cases "inherited (to_key (node current))")
              case True
              with st ne nh ng have "y = Inl TypeError" by simp
              with unf ne nh ng True show ?thesis by simp
            next
              case False
              with st ne nh ng have "f g1 nd e s2 = Some y" by simp
              from IH[OF this] have "search_loop g2 nd e s2 = Some y" by simp
              with unf ne nh ng False show ?thesis by simp
            qed
          qed
        qed
      qed
    qed
  qed
  then show ?thesis by simp
qed

lemma search_loop_cheapest_eq:
  assumes "\<forall>k. map to (edges_from g1 k) = map to (edges_from g2 k)"
  shows "search_loop g1 (newDist_cheapest banks) e s = search_loop g2 (newDist_cheapest banks) e s"
proof -
  have a: "\<And>c s k. foldl (relax (newDist_cheapest banks) c) s (edges_from g1 k)
                 = foldl (relax (newDist_cheapest banks) c) s (edges_from g2 k)"
    by (rule foldl_relax_cheapest) (use assms in blast)
  have b: "\<And>c s k. foldl (relax (newDist_cheapest banks) c) s (edges_from g2 k)
                 = foldl (relax (newDist_cheapest banks) c) s (edges_from g1 k)"
    by (rule a[symmetric])
  show ?thesis
  proof (cases "search_loop g1 (newDist_cheapest banks) e s")
    case None
    show ?thesis
    proof (cases "search_loop g2 (newDist_cheapest banks) e s")
      case None
      with \<open>search_loop g1 (newDist_cheapest banks) e s = None\<close> show ?thesis by simp
    next
      case (Some y)
      from search_loop_transfer[of "newDist_cheapest banks" g2 g1, OF b Some] None
      show ?thesis by simp
    qed
  next
    case (Some y)
    from search_loop_transfer[of "newDist_cheapest banks" g1 g2, OF a Some] Some
    show ?thesis by simp
  qed
qed

text \<open>
  C8. The cheapest search does not read the edge times: on two graphs whose adjacency
  lists name the same targets in the same order, whatever the times, and with the same
  charges, it has the same outcome (the same path and cost, the same \<^verbatim>\<open>null\<close>, the same
  exception, or no return on both).
\<close>

theorem cheapest_ignores_time:
  "\<forall>k. map to (edges_from g1 k) = map to (edges_from g2 k) \<Longrightarrow>
     dijkstraCheapest banks g1 start e = dijkstraCheapest banks g2 start e"
proof -
  assume "\<forall>k. map to (edges_from g1 k) = map to (edges_from g2 k)"
  then have "search_loop g1 (newDist_cheapest banks) e (init_state start (get_charge banks (to_key start)))
           = search_loop g2 (newDist_cheapest banks) e (init_state start (get_charge banks (to_key start)))"
    by (rule search_loop_cheapest_eq)
  then show ?thesis
    unfolding dijkstraCheapest_def dijkstra_def by (rule arg_cong)
qed

lemma scenario_same_links:
  "\<forall>k. map to (edges_from scenario_graph k) = map to (edges_from scenario_graph_slow k)"
  by (simp add: scenario_graph_links scenario_graph_slow_links)

theorem cheapest_ignores_time_witness:
  "dijkstraCheapest scenario_banks scenario_graph (JString ''A'') (JString ''C'')
     = dijkstraCheapest scenario_banks scenario_graph_slow (JString ''A'') (JString ''C'')
   \<and> dijkstraCheapest scenario_banks scenario_graph_slow (JString ''A'') (JString ''C'')
     = Some (Inr (Found [JString ''A'', JString ''C''] (Num 2)))
   \<and> edges_from scenario_graph ''A'' \<noteq> edges_from scenario_graph_slow ''A''"
  using cheapest_ignores_time[OF scenario_same_links, of scenario_banks "JString ''A''" "JString ''C''"]
    scenario_cheapest
  by (simp add: scenario_graph_links scenario_graph_slow_links)

section \<open>Parallel edges\<close>

lemma parallel_links:
  "\<not> inherited a \<Longrightarrow>
     edges_from (loaded [(a, b, t1), (a, b, t2)]) k
       = (if k = a then [\<lparr>to = b, time = t1\<rparr>, \<lparr>to = b, time = t2\<rparr>] else [])"
  by (subst load_links_plain(2)) (auto simp: edge_of_row_def)

text \<open>
  Between two nodes whose names are not inherited names, both parallel edges are
  considered by the loop: on the graph that holds two links from \<open>a\<close> to \<open>b\<close>, of 5 and of
  3 minutes, loaded in either order, the fastest search from \<open>a\<close> to \<open>b\<close> returns 3, not 5
  and not 8.
\<close>

lemma parallel_5_3:
  assumes "a \<noteq> b" and ia: "\<not> inherited a" and ib: "\<not> inherited b"
  shows "dijkstraFastest (loaded [(a, b, 5), (a, b, 3)]) (JString a) (JString b)
           = Some (Inr (Found [JString a, JString b] (Num 3)))"
proof -
  have ba: "b \<noteq> a" using assms by simp
  note pa = not_inherited_not_proto[OF ia] and pb = not_inherited_not_proto[OF ib]
  show ?thesis
    unfolding dijkstraFastest_def dijkstra_def init_state_def heappush_empty
    apply (subst search_loop.simps)
    apply (simp add: heappop_single Let_def assms ba pa pb js_gt_def js_lt_def js_add_def
        get_num_def put_def neighbors_def parallel_links
        relax_def newDist_fastest_def js_or_def heappush_empty heappush_second
        cmp_lt_numbers)
    apply (subst search_loop.simps)
    apply (simp add: heappop_single heappop_pair Let_def assms ba has_property_def)
    apply (subst walk_back.simps)
    apply (simp add: assms ba pa pb get_node_def walk_back_at_start get_num_def
        max_array_length_def)
    done
qed

lemma parallel_3_5:
  assumes "a \<noteq> b" and ia: "\<not> inherited a" and ib: "\<not> inherited b"
  shows "dijkstraFastest (loaded [(a, b, 3), (a, b, 5)]) (JString a) (JString b)
           = Some (Inr (Found [JString a, JString b] (Num 3)))"
proof -
  have ba: "b \<noteq> a" using assms by simp
  note pa = not_inherited_not_proto[OF ia] and pb = not_inherited_not_proto[OF ib]
  show ?thesis
    unfolding dijkstraFastest_def dijkstra_def init_state_def heappush_empty
    apply (subst search_loop.simps)
    apply (simp add: heappop_single Let_def assms ba pa pb js_gt_def js_lt_def js_add_def
        get_num_def put_def neighbors_def parallel_links
        relax_def newDist_fastest_def js_or_def heappush_empty heappush_second
        cmp_lt_numbers)
    apply (subst search_loop.simps)
    apply (simp add: heappop_single heappop_pair Let_def assms ba has_property_def)
    apply (subst walk_back.simps)
    apply (simp add: assms ba pa pb get_node_def walk_back_at_start get_num_def
        max_array_length_def)
    done
qed

text \<open>
  If some property holds of the node the walk starts from, and every node that has it is
  not the start node and has a predecessor with the property, the walk never meets the
  start node: it pushes until the array is full and throws.
\<close>

lemma walk_back_overflow:
  "(\<And>c. I c \<Longrightarrow> c \<noteq> start \<and> I (get_node preds (to_key c))) \<Longrightarrow> I c0 \<Longrightarrow>
     walk_back preds start c0 p0 = Inl RangeError"
proof (induction preds start c0 p0 rule: walk_back.induct)
  case (1 preds start current path)
  note keep = "1.prems"(1) and Ic = "1.prems"(2)
  from keep[OF Ic] have ne: "current \<noteq> start" and In: "I (get_node preds (to_key current))"
    by simp_all
  show ?case
  proof (cases "int (length path) < max_array_length")
    case True
    have "walk_back preds start (get_node preds (to_key current)) (path @ [current])
            = Inl RangeError"
      by (rule "1.IH"[OF ne True keep In])
    with ne True show ?thesis by (simp add: walk_back.simps[of preds start current path])
  next
    case False
    with ne show ?thesis by (simp add: walk_back.simps[of preds start current path])
  qed
qed

lemma inherited_constructor: "inherited ''constructor''"
  by (simp add: inherited_def inherited_names_def)

lemma constructor_links:
  "edges_from constructor_graph k
     = (if k = ''A'' then [\<lparr>to = ''constructor'', time = 5\<rparr>, \<lparr>to = ''constructor'', time = 3\<rparr>]
        else [])"
  unfolding constructor_graph_def by (rule parallel_links) (rule inherited_letters)

text \<open>
  The fastest search from A on the graph with two links from A to \<^verbatim>\<open>constructor\<close>: for
  both links the test reads \<^verbatim>\<open>distances['constructor']\<close>, which is the inherited function
  \<^verbatim>\<open>Object\<close>; it is truthy, and a number is not smaller than a function. So neither link
  records a distance, a predecessor or a queue entry, and the loop ends with the distance
  of A alone.
\<close>

lemma constructor_loop:
  "search_loop constructor_graph newDist_fastest (JString ''constructor'')
       (init_state (JString ''A'') (Num 0))
     = Some (Inr \<lparr>distances = [''A'' \<mapsto> Num 0], predecessors = Map.empty, pq = []\<rparr>)"
  apply (subst search_loop.simps)
  apply (simp add: init_state_def heappush_empty heappop_single Let_def js_gt_def js_lt_def
      js_add_def get_num_def put_def neighbors_def inherited_letters inherited_constructor
      constructor_links relax_def newDist_fastest_def js_or_def)
  apply (subst search_loop.simps)
  apply simp
  done

lemma constructor_walk:
  "walk_back Map.empty (JString ''A'') (JString ''constructor'') [] = Inl RangeError"
  by (rule walk_back_overflow
      [where I = "\<lambda>c. c = JString ''constructor'' \<or> c = JInherited ''constructor''
                       \<or> c = JUndefined"])
     (auto simp: get_node_def inherited_def inherited_names_def inherited_text_def)

text \<open>
  C7 (the code departs from the claim). Two parallel links that leave a node named
  \<^verbatim>\<open>constructor\<close> are not kept: \<^verbatim>\<open>graph['constructor']\<close> is the inherited function
  \<^verbatim>\<open>Object\<close>, so no array is made for the node, and \<^verbatim>\<open>graph['constructor'].push\<close> is not a
  function: loading throws at the first row. Two parallel links from A to a node named
  \<^verbatim>\<open>constructor\<close>, of 5 and of 3 minutes, are kept in the array of A, but neither is
  relaxed: the fastest search from A to that node does not return 3. It finds
  \<^verbatim>\<open>'constructor' in distances\<close> true, walks from the end node along predecessors that
  were never recorded, never meets A, and throws when the path cannot grow any more; the
  endpoint answers with status 500.
\<close>

theorem parallel_edges_constructor:
  "load_links [(''constructor'', ''B'', 5), (''constructor'', ''B'', 3)] = Inl TypeError
   \<and> load_links [(''A'', ''constructor'', 5), (''A'', ''constructor'', 3)] = Inr constructor_graph
   \<and> edges_from constructor_graph ''A''
       = [\<lparr>to = ''constructor'', time = 5\<rparr>, \<lparr>to = ''constructor'', time = 3\<rparr>]
   \<and> dijkstraFastest constructor_graph (JString ''A'') (JString ''constructor'')
       = Some (Inl RangeError)
   \<and> get_charge (load_banks [(''A'', 1), (''constructor'', 1)]) ''constructor'' = Num 1
   \<and> fastestroute (load_banks [(''A'', 1), (''constructor'', 1)]) constructor_graph
        \<lparr>fromBank = JString ''A'', toBank = JString ''constructor''\<rparr>
       = Some \<lparr>status = 500, body = Uncaught RangeError\<rparr>"
proof -
  have l: "load_links [(''constructor'', ''B'', 5), (''constructor'', ''B'', 3)] = Inl TypeError"
    by (simp add: load_links_def load_link_def inherited_constructor)
  have d: "dijkstraFastest constructor_graph (JString ''A'') (JString ''constructor'')
             = Some (Inl RangeError)"
    by (simp add: dijkstraFastest_def dijkstra_def constructor_loop constructor_walk
        has_property_def inherited_constructor)
  have c: "get_charge (load_banks [(''A'', 1), (''constructor'', 1)]) ''A'' = Num 1"
      "get_charge (load_banks [(''A'', 1), (''constructor'', 1)]) ''constructor'' = Num 1"
    by (simp_all add: get_charge_def load_banks_def load_bank_def put_def)
  from l d c inputs_loaded(5) show ?thesis
    by (simp add: constructor_links fastestroute_def invalid_bank_def answer_def)
qed

section \<open>A distance of zero\<close>

text \<open>
  The test \<^verbatim>\<open>newDist < (distances[neighbor.to] || Infinity)\<close> reads a recorded distance
  of 0 as no distance: 0 is falsy, so the right-hand side is \<^verbatim>\<open>Infinity\<close>.
\<close>

lemma zero_is_no_distance: "js_or (Num 0) Infinity = Infinity"
  by (simp add: js_or_def)

text \<open>
  When the relaxation of an edge changes the state: the candidate is smaller than the
  recorded distance of the target, or that distance is missing or 0 (or not a number) and
  the candidate is a number.
\<close>

lemma relax_changes_distance:
  "(distances (relax newDist current s neighbor)
      = put (distances s) (to neighbor) (newDist (distance current) neighbor)
    \<and> pq (relax newDist current s neighbor)
      = heappush (pq s) \<lparr>node = JString (to neighbor), distance = newDist (distance current) neighbor\<rparr>)
   \<or> relax newDist current s neighbor = s"
  by (simp add: relax_def Let_def)

lemma relax_test:
  "js_lt (Num d) (js_or (get_num (distances s) k) Infinity)
     = (js_lt (Num d) (get_num (distances s) k)
        \<or> \<not> truthy (get_num (distances s) k))"
  by (cases "get_num (distances s) k") (simp_all add: js_or_def js_lt_def)

text \<open>
  C4 (the code departs from the claim). In the fastest search from A on the graph with a
  link from A to B in 2 minutes and a link back in 3 minutes, B is popped with distance 2
  and its link to A is relaxed. The candidate is 5, A has the recorded distance 0, and 5 is
  not smaller than 0; all the same the distance of A becomes 5, its predecessor becomes B
  and an entry for A is pushed. Over the run the recorded distance of A goes from 0 to 5.
\<close>

theorem zero_distance_overwritten:
  "get_num (distances back_edge_state) ''A'' = Num 0
   \<and> newDist_fastest (Num 2) \<lparr>to = ''A'', time = 3\<rparr> = Num 5
   \<and> \<not> js_lt (Num 5) (get_num (distances back_edge_state) ''A'')
   \<and> get_num (distances (relax newDist_fastest \<lparr>node = JString ''B'', distance = Num 2\<rparr>
                             back_edge_state \<lparr>to = ''A'', time = 3\<rparr>)) ''A'' = Num 5
   \<and> get_node (predecessors (relax newDist_fastest \<lparr>node = JString ''B'', distance = Num 2\<rparr>
                             back_edge_state \<lparr>to = ''A'', time = 3\<rparr>)) ''A'' = JString ''B''
   \<and> pq (relax newDist_fastest \<lparr>node = JString ''B'', distance = Num 2\<rparr>
                             back_edge_state \<lparr>to = ''A'', time = 3\<rparr>)
       = [\<lparr>node = JString ''A'', distance = Num 5\<rparr>]
   \<and> get_num (distances (init_state (JString ''A'') (Num 0))) ''A'' = Num 0
   \<and> map_option (map_sum id (\<lambda>s. get_num (distances s) ''A''))
        (search_loop back_edge_graph newDist_fastest (JString ''C'') (init_state (JString ''A'') (Num 0)))
       = Some (Inr (Num 5))"
  unfolding back_edge_graph_def back_edge_state_def
  by code_simp

text \<open>
  C1 (the code departs from the claim). With two parallel links from A to B, of 0 and of
  3 minutes in this order, the first link is a route from A to B of total time 0, and the
  fastest search from A to B returns the weight 3: relaxing the second link overwrites the
  recorded distance 0 of B. The endpoint answers with that weight.
\<close>

theorem fastest_not_minimal:
  "route_end zero_parallel_graph ''A'' [\<lparr>to = ''B'', time = 0\<rparr>] = Some ''B''
   \<and> route_time [\<lparr>to = ''B'', time = 0\<rparr>] = 0
   \<and> dijkstraFastest zero_parallel_graph (JString ''A'') (JString ''B'')
     = Some (Inr (Found [JString ''A'', JString ''B''] (Num 3)))
   \<and> fastestroute zero_parallel_banks zero_parallel_graph
        \<lparr>fromBank = JString ''A'', toBank = JString ''B''\<rparr>
     = Some \<lparr>status = 200, body = RouteTime ''A -> B'' (Num 3)\<rparr>"
  unfolding zero_parallel_graph_def zero_parallel_banks_def route_time_def
  by code_simp

section \<open>A search that does not return\<close>

text \<open>
  If some property of the state holds before the loop, and in every state that has it the
  queue is not empty, the popped entry is not the end node, is not skipped and has no
  inherited name, and the property holds again after its edges are relaxed, then the loop
  does not end.
\<close>

lemma search_loop_never_returns:
  assumes I: "I s0"
  assumes keep: "\<And>s. I s \<Longrightarrow>
     pq s \<noteq> [] \<and> node (fst (heappop (pq s))) \<noteq> e
     \<and> \<not> js_gt (distance (fst (heappop (pq s))))
              (get_num (distances s) (to_key (node (fst (heappop (pq s))))))
     \<and> \<not> inherited (to_key (node (fst (heappop (pq s)))))
     \<and> I (foldl (relax nd (fst (heappop (pq s)))) (s\<lparr>pq := snd (heappop (pq s))\<rparr>)
            (edges_from g (to_key (node (fst (heappop (pq s)))))))"
  shows "search_loop g nd e s0 = None"
proof (cases "search_loop g nd e s0")
  case None
  then show ?thesis .
next
  case (Some y)
  have "g = g \<longrightarrow> nd = nd \<longrightarrow> e = e \<longrightarrow> I s0 \<longrightarrow> False"
  proof (rule search_loop.raw_induct
      [where P = "\<lambda>g' nd' e' s y. g' = g \<longrightarrow> nd' = nd \<longrightarrow> e' = e \<longrightarrow> I s \<longrightarrow> False",
       OF _ Some])
    fix f :: "graph \<Rightarrow> (jsnum \<Rightarrow> edge \<Rightarrow> jsnum) \<Rightarrow> jsval \<Rightarrow> state \<Rightarrow> (error + state) option"
    fix g' nd' e' s y
    assume IH: "\<And>g' nd' e' s y. f g' nd' e' s = Some y \<Longrightarrow>
                  g' = g \<longrightarrow> nd' = nd \<longrightarrow> e' = e \<longrightarrow> I s \<longrightarrow> False"
    assume step: "(if pq s = [] then Some (Inr s)
      else
        (let current = fst (heappop (pq s)); s1 = s\<lparr>pq := snd (heappop (pq s))\<rparr>
         in if node current = e' then Some (Inr s1)
            else if js_gt (distance current) (get_num (distances s1) (to_key (node current)))
            then f g' nd' e' s1
            else (case neighbors g' (to_key (node current)) of
                    Inl err \<Rightarrow> Some (Inl err)
                  | Inr es \<Rightarrow> f g' nd' e' (foldl (relax nd' current) s1 es)))) = Some y"
    show "g' = g \<longrightarrow> nd' = nd \<longrightarrow> e' = e \<longrightarrow> I s \<longrightarrow> False"
    proof (intro impI)
      assume eqs: "g' = g" "nd' = nd" "e' = e" and Is: "I s"
      note k = keep[OF Is]
      from step k have "f g nd e (foldl (relax nd (fst (heappop (pq s)))) (s\<lparr>pq := snd (heappop (pq s))\<rparr>)
            (edges_from g (to_key (node (fst (heappop (pq s))))))) = Some y"
        unfolding eqs neighbors_case by (simp add: Let_def)
      from IH[OF this] k show False by simp
    qed
  qed
  with I show ?thesis by simp
qed

lemma zero_cycle_diverges:
  "search_loop zero_cycle_graph newDist_fastest (JString ''C'') (init_state (JString ''A'') (Num 0)) = None"
proof (rule search_loop_never_returns[where I = zero_cycle_inv])
  show "zero_cycle_inv (init_state (JString ''A'') (Num 0))"
    by (simp add: zero_cycle_inv_def init_state_def heappush_empty put_def)
next
  fix s :: state
  assume inv: "zero_cycle_inv s"
  show "pq s \<noteq> [] \<and> node (fst (heappop (pq s))) \<noteq> JString ''C''
     \<and> \<not> js_gt (distance (fst (heappop (pq s))))
              (get_num (distances s) (to_key (node (fst (heappop (pq s))))))
     \<and> \<not> inherited (to_key (node (fst (heappop (pq s)))))
     \<and> zero_cycle_inv (foldl (relax newDist_fastest (fst (heappop (pq s)))) (s\<lparr>pq := snd (heappop (pq s))\<rparr>)
            (edges_from zero_cycle_graph (to_key (node (fst (heappop (pq s)))))))"
  proof (cases "pq s = [\<lparr>node = JString ''A'', distance = Num 0\<rparr>]")
    case True
    with inv have "distances s ''A'' = Some (Num 0)"
      and "distances s ''B'' = None \<or> distances s ''B'' = Some (Num 0)"
      by (simp_all add: zero_cycle_inv_def)
    with True show ?thesis
      by (auto simp: heappop_single js_gt_def js_lt_def js_add_def get_num_def put_def
          inherited_letters zero_cycle_links
          relax_def newDist_fastest_def js_or_def heappush_empty Let_def zero_cycle_inv_def)
  next
    case False
    with inv have "distances s ''A'' = Some (Num 0)" and "distances s ''B'' = Some (Num 0)"
      and "pq s = [\<lparr>node = JString ''B'', distance = Num 0\<rparr>]"
      by (simp_all add: zero_cycle_inv_def)
    then show ?thesis
      by (simp add: heappop_single js_gt_def js_lt_def js_add_def get_num_def put_def
          inherited_letters zero_cycle_links
          relax_def newDist_fastest_def js_or_def heappush_empty Let_def zero_cycle_inv_def)
  qed
qed

text \<open>
  C2 (the code departs from the claim). Edge times are not negative, A and C are nodes,
  and the fastest search from A to C does not terminate: the links between A and B take no
  time, each relaxation finds the recorded distance 0 of the other node, reads it as no
  distance and pushes that node again.
\<close>

theorem fastest_zero_cycle_never_returns:
  "search_loop zero_cycle_graph newDist_fastest (JString ''C'') (init_state (JString ''A'') (Num 0)) = None
   \<and> dijkstraFastest zero_cycle_graph (JString ''A'') (JString ''C'') = None"
  by (simp add: dijkstraFastest_def dijkstra_def zero_cycle_diverges)

lemma zero_cycle_routes:
  "route_end zero_cycle_graph a es = Some c \<Longrightarrow> a = ''A'' \<or> a = ''B'' \<Longrightarrow> c = ''A'' \<or> c = ''B''"
proof (induction es arbitrary: a)
  case Nil
  then show ?case by simp
next
  case (Cons x es)
  from Cons.prems have x: "x \<in> set (edges_from zero_cycle_graph a)"
    and r: "route_end zero_cycle_graph (to x) es = Some c"
    by (simp_all split: if_splits)
  from x Cons.prems(2) have "to x = ''A'' \<or> to x = ''B''"
    by (auto simp: zero_cycle_links)
  with Cons.IH[OF r] show ?case .
qed

text \<open>
  C5 (the code departs from the claim). A and C both have a charge, no route leads from A
  to C, and the request for the fastest route from A to C gets no answer at all, neither
  "No path found" nor any other: the search does not return.
\<close>

theorem unreachable_end_never_answered:
  "get_charge zero_cycle_banks ''A'' = Num 1
   \<and> get_charge zero_cycle_banks ''C'' = Num 1
   \<and> (\<forall>es. route_end zero_cycle_graph ''A'' es \<noteq> Some ''C'')
   \<and> fastestroute zero_cycle_banks zero_cycle_graph
        \<lparr>fromBank = JString ''A'', toBank = JString ''C''\<rparr> = None"
proof -
  have r: "\<forall>es. route_end zero_cycle_graph ''A'' es \<noteq> Some ''C''"
    using zero_cycle_routes[of "''A''"] by fastforce
  have d: "dijkstraFastest zero_cycle_graph (JString ''A'') (JString ''C'') = None"
    by (simp add: dijkstraFastest_def dijkstra_def zero_cycle_diverges)
  have c: "get_charge zero_cycle_banks ''A'' = Num 1 \<and> get_charge zero_cycle_banks ''C'' = Num 1"
    by (simp add: zero_cycle_banks_def load_banks_def load_bank_def get_charge_def put_def)
  from r d c show ?thesis
    by (simp add: fastestroute_def invalid_bank_def)
qed

section \<open>A walk along the predecessors that does not meet the start node\<close>

text \<open>
  On the graph with links that take no time from A to B, from B to C and to E, and from C
  back to B, the fastest search from A to E leaves its loop with B as predecessor
  of C and C as predecessor of B: B is popped first and gives C and E the distance 0; C is
  popped before E (both have distance 0, C was pushed first) and its link back to B
  overwrites the recorded distance 0 and the predecessor of B. The walk from E then goes
  round B and C and never meets A: it ends when the path cannot grow any more, with a
  \<^verbatim>\<open>RangeError\<close>.
\<close>

lemma pred_cycle_loop:
  "map_option (map_sum id (\<lambda>s. (get_node (predecessors s) ''B'', get_node (predecessors s) ''C'',
                     get_node (predecessors s) ''E'', get_num (distances s) ''E'')))
     (search_loop pred_cycle_graph newDist_fastest (JString ''E'') (init_state (JString ''A'') (Num 0)))
   = Some (Inr (JString ''C'', JString ''B'', JString ''B'', Num 0))"
  unfolding pred_cycle_graph_def
  by code_simp

lemma pred_cycle_throws:
  "dijkstraFastest pred_cycle_graph (JString ''A'') (JString ''E'') = Some (Inl RangeError)"
proof -
  from pred_cycle_loop obtain y where
    y: "search_loop pred_cycle_graph newDist_fastest (JString ''E'') (init_state (JString ''A'') (Num 0)) = Some y"
    and m: "map_sum id (\<lambda>s. (get_node (predecessors s) ''B'', get_node (predecessors s) ''C'',
                     get_node (predecessors s) ''E'', get_num (distances s) ''E'')) y
            = Inr (JString ''C'', JString ''B'', JString ''B'', Num 0)"
    by auto
  from m obtain s where
    s: "y = Inr s"
    and b: "get_node (predecessors s) ''B'' = JString ''C''"
    and c: "get_node (predecessors s) ''C'' = JString ''B''"
    and e: "get_node (predecessors s) ''E'' = JString ''B''"
    and d: "get_num (distances s) ''E'' = Num 0"
    by (cases y) auto
  have w: "walk_back (predecessors s) (JString ''A'') (JString ''E'') [] = Inl RangeError"
    by (rule walk_back_overflow
        [where I = "\<lambda>c. c = JString ''E'' \<or> c = JString ''B'' \<or> c = JString ''C''"])
       (auto simp: b c e)
  from d have "has_property (distances s) ''E''"
    by (auto simp: get_num_def has_property_def split: option.splits if_splits)
  with y s w show ?thesis
    by (simp add: dijkstraFastest_def dijkstra_def)
qed

section \<open>An end node without a route\<close>

text \<open>
  A property of the state that holds before the loop, that popping an entry keeps, and
  that relaxing the edges of the popped entry keeps, holds of the state the loop leaves
  when it ends without an exception.
\<close>

lemma search_loop_invariant:
  assumes run: "search_loop g nd e s0 = Some (Inr s')"
  assumes I0: "I s0"
  assumes pop: "\<And>s. I s \<Longrightarrow> pq s \<noteq> [] \<Longrightarrow> I (s\<lparr>pq := snd (heappop (pq s))\<rparr>)"
  assumes step: "\<And>s. I s \<Longrightarrow> pq s \<noteq> [] \<Longrightarrow>
     I (foldl (relax nd (fst (heappop (pq s)))) (s\<lparr>pq := snd (heappop (pq s))\<rparr>)
          (edges_from g (to_key (node (fst (heappop (pq s)))))))"
  shows "I s'"
proof -
  have "g = g \<longrightarrow> nd = nd \<longrightarrow> I s0 \<longrightarrow> (\<forall>t. (Inr s' :: error + state) = Inr t \<longrightarrow> I t)"
  proof (rule search_loop.raw_induct
      [where P = "\<lambda>g' nd' e' s y. g' = g \<longrightarrow> nd' = nd \<longrightarrow> I s \<longrightarrow> (\<forall>t. y = Inr t \<longrightarrow> I t)",
       OF _ run])
    fix f :: "graph \<Rightarrow> (jsnum \<Rightarrow> edge \<Rightarrow> jsnum) \<Rightarrow> jsval \<Rightarrow> state \<Rightarrow> (error + state) option"
    fix g' nd' e' s y
    assume IH: "\<And>g' nd' e' s y. f g' nd' e' s = Some y \<Longrightarrow>
                  g' = g \<longrightarrow> nd' = nd \<longrightarrow> I s \<longrightarrow> (\<forall>t. y = Inr t \<longrightarrow> I t)"
    assume st: "(if pq s = [] then Some (Inr s)
      else
        (let current = fst (heappop (pq s)); s1 = s\<lparr>pq := snd (heappop (pq s))\<rparr>
         in if node current = e' then Some (Inr s1)
            else if js_gt (distance current) (get_num (distances s1) (to_key (node current)))
            then f g' nd' e' s1
            else (case neighbors g' (to_key (node current)) of
                    Inl err \<Rightarrow> Some (Inl err)
                  | Inr es \<Rightarrow> f g' nd' e' (foldl (relax nd' current) s1 es)))) = Some y"
    show "g' = g \<longrightarrow> nd' = nd \<longrightarrow> I s \<longrightarrow> (\<forall>t. y = Inr t \<longrightarrow> I t)"
    proof (intro impI allI)
      fix t
      assume eqs: "g' = g" "nd' = nd" and Is: "I s" and yt: "y = Inr t"
      define current where "current = fst (heappop (pq s))"
      define s1 where "s1 = s\<lparr>pq := snd (heappop (pq s))\<rparr>"
      define s2 where "s2 = foldl (relax nd current) s1 (edges_from g (to_key (node current)))"
      note st' = st[unfolded Let_def eqs neighbors_case, folded current_def s1_def, folded s2_def]
      show "I t"
      proof (cases "pq s = []")
        case True
        with st' Is yt show ?thesis by simp
      next
        case False
        note ne = this
        have p: "I s1" unfolding s1_def by (rule pop[OF Is ne])
        have q: "I s2" unfolding s2_def s1_def current_def by (rule step[OF Is ne])
        show ?thesis
        proof (cases "node current = e'")
          case True
          with st' ne yt have "t = s1" by simp
          with p show ?thesis by simp
        next
          case False
          note nh = this
          show ?thesis
          proof (cases "js_gt (distance current) (get_num (distances s1) (to_key (node current)))")
            case True
            with st' ne nh have "f g nd e' s1 = Some y" by simp
            from IH[OF this] p yt show ?thesis by simp
          next
            case False
            note ng = this
            show ?thesis
            proof (cases "inherited (to_key (node current))")
              case True
              with st' ne nh ng yt show ?thesis by simp
            next
              case False
              with st' ne nh ng have "f g nd e' s2 = Some y" by simp
              from IH[OF this] q yt show ?thesis by simp
            qed
          qed
        qed
      qed
    qed
  qed
  with I0 show ?thesis by simp
qed

lemma route_end_append:
  "route_end g a es = Some k \<Longrightarrow> e \<in> set (edges_from g k) \<Longrightarrow> route_end g a (es @ [e]) = Some (to e)"
  by (induction es arbitrary: a) (auto split: if_splits)

lemma reach_step: "reach g a k \<Longrightarrow> e \<in> set (edges_from g k) \<Longrightarrow> reach g a (to e)"
  unfolding reach_def by (blast intro: route_end_append)

lemma put_Some: "put obj k v x = Some y \<Longrightarrow> (\<exists>z. obj x = Some z) \<or> x = k"
  by (auto simp: put_def split: if_splits)

lemma reach_inv_relax:
  assumes inv: "reach_inv g a s" and c: "reach g a (to_key (node c))"
    and n: "n \<in> set (edges_from g (to_key (node c)))"
  shows "reach_inv g a (relax nd c s n)"
proof -
  have r: "reach g a (to n)" using c n by (rule reach_step)
  have "\<forall>x \<in> set (heappush (pq s) \<lparr>node = JString (to n), distance = nd (distance c) n\<rparr>).
          reach g a (to_key (node x))"
    using set_heappush[of "pq s" "\<lparr>node = JString (to n), distance = nd (distance c) n\<rparr>"] inv r
    by (auto simp: reach_inv_def)
  with inv r show ?thesis
    by (auto simp: relax_def Let_def reach_inv_def dest: put_Some)
qed

lemma reach_inv_foldl:
  "reach_inv g a s \<Longrightarrow> reach g a (to_key (node c)) \<Longrightarrow>
   set ns \<subseteq> set (edges_from g (to_key (node c))) \<Longrightarrow>
   reach_inv g a (foldl (relax nd c) s ns)"
proof (induction ns arbitrary: s)
  case Nil
  then show ?case by simp
next
  case (Cons n ns)
  from Cons.prems have "reach_inv g a (relax nd c s n)"
    by (intro reach_inv_relax) auto
  with Cons.prems Cons.IH[of "relax nd c s n"] show ?case by simp
qed

lemma search_loop_reach:
  assumes run: "search_loop g nd e (init_state start d0) = Some (Inr s')"
  shows "reach_inv g (to_key start) s'"
proof (rule search_loop_invariant[OF run])
  have "reach g (to_key start) (to_key start)"
    unfolding reach_def by (rule exI[of _ "[]"]) simp
  then show "reach_inv g (to_key start) (init_state start d0)"
    by (auto simp: reach_inv_def init_state_def heappush_empty dest: put_Some)
next
  fix s assume inv: "reach_inv g (to_key start) s" and ne: "pq s \<noteq> []"
  from inv heappop_snd[OF ne]
  show pop: "reach_inv g (to_key start) (s\<lparr>pq := snd (heappop (pq s))\<rparr>)"
    by (auto simp: reach_inv_def)
  from inv heappop_fst[OF ne] have "reach g (to_key start) (to_key (node (fst (heappop (pq s)))))"
    by (auto simp: reach_inv_def)
  with pop show "reach_inv g (to_key start)
          (foldl (relax nd (fst (heappop (pq s)))) (s\<lparr>pq := snd (heappop (pq s))\<rparr>)
             (edges_from g (to_key (node (fst (heappop (pq s)))))))"
    by (intro reach_inv_foldl) auto
qed

text \<open>
  When no route leads from the start node to the end node and the name of the end node
  is not an inherited name, a search that returns a result returns \<^verbatim>\<open>null\<close>, and a handler
  that answers does not answer with status 200.
\<close>

lemma dijkstra_no_route:
  assumes "\<forall>es. route_end g (to_key start) es \<noteq> Some (to_key e)"
    and "\<not> inherited (to_key e)"
    and "dijkstra g nd d0 start e = Some (Inr r)"
  shows "r = Null"
proof (cases "search_loop g nd e (init_state start d0)")
  case None
  with assms(3) show ?thesis by (simp add: dijkstra_def)
next
  case (Some y)
  show ?thesis
  proof (cases y)
    case (Inl err)
    with Some assms(3) show ?thesis by (simp add: dijkstra_def)
  next
    case (Inr s')
    with Some have run: "search_loop g nd e (init_state start d0) = Some (Inr s')" by simp
    from search_loop_reach[OF run] assms(1) have "distances s' (to_key e) = None"
      by (auto simp: reach_inv_def reach_def)
    with assms(2) have "\<not> has_property (distances s') (to_key e)"
      by (simp add: has_property_def)
    with run assms(3) show ?thesis by (simp add: dijkstra_def)
  qed
qed

lemma handlers_no_route:
  assumes "\<forall>es. route_end g (to_key (fromBank req)) es \<noteq> Some (to_key (toBank req))"
    and "\<not> inherited (to_key (toBank req))"
  shows "fastestroute banks g req = Some resp \<Longrightarrow> status resp \<noteq> 200"
    and "cheapestroute banks g req = Some resp \<Longrightarrow> status resp \<noteq> 200"
proof -
  assume a: "fastestroute banks g req = Some resp"
  show "status resp \<noteq> 200"
  proof (cases "invalid_bank banks req")
    case True
    with a show ?thesis by (auto simp: fastestroute_def)
  next
    case False
    with a obtain y where y: "dijkstraFastest g (fromBank req) (toBank req) = Some y"
      and resp: "resp = answer fastest_reply y"
      by (auto simp: fastestroute_def)
    show ?thesis
    proof (cases y)
      case (Inl err)
      with resp show ?thesis by (simp add: answer_def)
    next
      case (Inr r)
      with y have "dijkstra g newDist_fastest (Num 0) (fromBank req) (toBank req) = Some (Inr r)"
        by (simp add: dijkstraFastest_def)
      from dijkstra_no_route[OF assms this] Inr resp show ?thesis
        by (simp add: answer_def fastest_reply_def)
    qed
  qed
next
  assume a: "cheapestroute banks g req = Some resp"
  show "status resp \<noteq> 200"
  proof (cases "invalid_bank banks req")
    case True
    with a show ?thesis by (auto simp: cheapestroute_def)
  next
    case False
    with a obtain y where y: "dijkstraCheapest banks g (fromBank req) (toBank req) = Some y"
      and resp: "resp = answer cheapest_reply y"
      by (auto simp: cheapestroute_def)
    show ?thesis
    proof (cases y)
      case (Inl err)
      with resp show ?thesis by (simp add: answer_def)
    next
      case (Inr r)
      with y have "dijkstra g (newDist_cheapest banks) (get_charge banks (to_key (fromBank req)))
                     (fromBank req) (toBank req) = Some (Inr r)"
        by (simp add: dijkstraCheapest_def)
      from dijkstra_no_route[OF assms this] Inr resp show ?thesis
        by (simp add: answer_def cheapest_reply_def)
    qed
  qed
qed

section \<open>Validation of the request\<close>



text \<open>A charge of 0 is falsy, so \<^verbatim>\<open>!banks[fromBank]\<close> holds for a bank whose charge is 0.\<close>

lemma zero_charge_invalid:
  "(banks (to_key (fromBank req)) = Some 0 \<and> to_key (fromBank req) \<noteq> ''__proto__'')
   \<or> (banks (to_key (toBank req)) = Some 0 \<and> to_key (toBank req) \<noteq> ''__proto__'')
     \<Longrightarrow> invalid_bank banks req"
  by (auto simp: invalid_bank_def get_charge_def)

text \<open>
  An inherited name that has no charge entry passes validation: \<^verbatim>\<open>banks[name]\<close> is the
  inherited function or object, which is truthy.
\<close>

lemma inherited_name_valid:
  "inherited (to_key (fromBank req)) \<Longrightarrow> banks (to_key (fromBank req)) = None \<Longrightarrow>
   inherited (to_key (toBank req)) \<Longrightarrow> banks (to_key (toBank req)) = None \<Longrightarrow>
   \<not> invalid_bank banks req"
  by (simp add: invalid_bank_def get_charge_def)

text \<open>
  So a request from \<^verbatim>\<open>toString\<close> to \<^verbatim>\<open>toString\<close> is answered with status 200 although no bank
  and no link is loaded.
\<close>

lemma inherited_name_answered:
  "fastestroute Map.empty Map.empty \<lparr>fromBank = JString ''toString'', toBank = JString ''toString''\<rparr>
     = Some \<lparr>status = 200, body = RouteTime ''toString'' (Num 0)\<rparr>"
  by (simp add: fastestroute_def invalid_bank_def get_charge_def inherited_def inherited_names_def
      start_equals_end_plain(1) answer_def fastest_reply_def)









end
